theory Spec2Isabelle
  imports Main
begin

section \<open>Python values, dictionaries and exceptions\<close>

text \<open>
  The values the script stores in its user dictionaries are \<open>None\<close>, booleans and
  strings. A dictionary is an association list in insertion order; every dictionary
  the script builds has distinct keys. \<open>create_user_via_browser\<close> returns either
  \<open>False\<close> or a dictionary, so its result is a \<open>pyobj\<close>.
\<close>

datatype pyval = PNone | PBool bool | PStr string

type_synonym pydict = "(string \<times> pyval) list"

datatype pyobj = Val pyval | Dict pydict

datatype exn =
    ImportError
  | WebDriverException
  | OSError
  | AttributeError
  | KeyError string
  | SystemExit int

text \<open>Truth value testing, as \<open>if x\<close>, \<open>not x\<close> and \<open>x or y\<close> use it.\<close>

fun truthy :: "pyval \<Rightarrow> bool" where
  "truthy PNone = False"
| "truthy (PBool b) = b"
| "truthy (PStr s) = (s \<noteq> [])"

fun truthy_obj :: "pyobj \<Rightarrow> bool" where
  "truthy_obj (Val v) = truthy v"
| "truthy_obj (Dict d) = (d \<noteq> [])"

definition py_or :: "pyval \<Rightarrow> pyval \<Rightarrow> pyval" where
  "py_or a b = (if truthy a then a else b)"

text \<open>\<open>d.get(k)\<close>: the value, or \<open>None\<close> when the key is missing.\<close>

definition dict_get :: "pydict \<Rightarrow> string \<Rightarrow> pyval" where
  "dict_get d k = (case map_of d k of None \<Rightarrow> PNone | Some v \<Rightarrow> v)"

text \<open>\<open>d[k]\<close>: the value, or \<open>KeyError\<close> when the key is missing.\<close>

definition dict_index :: "pydict \<Rightarrow> string \<Rightarrow> exn + pyval" where
  "dict_index d k = (case map_of d k of None \<Rightarrow> Inl (KeyError k) | Some v \<Rightarrow> Inr v)"

text \<open>What an f-string prints for a value.\<close>

fun py_str :: "pyval \<Rightarrow> string" where
  "py_str PNone = ''None''"
| "py_str (PBool b) = (if b then ''True'' else ''False'')"
| "py_str (PStr s) = s"

section \<open>Program state: files and observable events\<close>

text \<open>
  The state the script acts on is the file system (file name to contents) and the
  sequence of observable events. Of the log lines the model records the \<open>[OK]\<close>,
  \<open>[WARN]\<close> or \<open>[FAIL]\<close> verdict of each function and the two lines of the import
  failure, each by its level and tag; progress and debug lines are left out, and
  so are the debug pages and screenshots the script saves.
\<close>

datatype event =
    Log string string
  | Launch
  | Login string string
  | Create string string string
  | Quit
  | Print string

record st =
  files :: "string \<rightharpoonup> string"
  trace :: "event list"

definition say :: "event \<Rightarrow> st \<Rightarrow> st" where
  "say e s = s\<lparr>trace := trace s @ [e]\<rparr>"

definition log :: "string \<Rightarrow> string \<Rightarrow> st \<Rightarrow> st" where
  "log msg level s = say (Log level msg) s"

definition contents :: "st \<Rightarrow> string \<Rightarrow> string" where
  "contents s filename = (case files s filename of None \<Rightarrow> [] | Some c \<Rightarrow> c)"

section \<open>Random identities\<close>

text \<open>
  \<open>random.choice\<close> picks the element at an index below the length of the sequence.
  The source of randomness is a sequence \<open>dice\<close> of naturals, read at a position that
  advances with every draw; the index is the drawn number reduced modulo the length.
  Both pools and the alphabet are non-empty constants.
\<close>

definition first_names :: "string list" where
  "first_names = [''John'', ''Jane'', ''Alex'', ''Chris'', ''Sam'', ''Taylor'', ''Jordan'',
                  ''Morgan'', ''Casey'', ''Riley'']"

definition last_names :: "string list" where
  "last_names = [''Smith'', ''Johnson'', ''Williams'', ''Brown'', ''Jones'', ''Garcia'',
                 ''Miller'', ''Davis'', ''Wilson'']"

definition ascii_lowercase :: string where
  "ascii_lowercase = ''abcdefghijklmnopqrstuvwxyz''"

definition digits :: string where
  "digits = ''0123456789''"

definition random_choice :: "'a list \<Rightarrow> (nat \<Rightarrow> nat) \<Rightarrow> nat \<Rightarrow> 'a \<times> nat" where
  "random_choice xs dice pos = (xs ! (dice pos mod length xs), Suc pos)"

definition generate_random_name :: "(nat \<Rightarrow> nat) \<Rightarrow> nat \<Rightarrow> (string \<times> string) \<times> nat" where
  "generate_random_name dice pos =
     (let (f, p1) = random_choice first_names dice pos;
          (l, p2) = random_choice last_names dice p1
      in ((f, l), p2))"

fun random_chars :: "string \<Rightarrow> nat \<Rightarrow> (nat \<Rightarrow> nat) \<Rightarrow> nat \<Rightarrow> string \<times> nat" where
  "random_chars chars 0 dice pos = ([], pos)"
| "random_chars chars (Suc n) dice pos =
     (let (c, p) = random_choice chars dice pos;
          (cs, p') = random_chars chars n dice p
      in (c # cs, p'))"

definition generate_random_email :: "string \<Rightarrow> (nat \<Rightarrow> nat) \<Rightarrow> nat \<Rightarrow> string \<times> nat" where
  "generate_random_email domain dice pos =
     (let chars = ascii_lowercase @ digits;
          (username, p) = random_chars chars 10 dice pos
      in (username @ ''@'' @ domain, p))"

section \<open>Persistence\<close>

text \<open>
  What the operating system does with one \<open>open(filename, 'a')\<close> and the write that
  follows: both go through, the open fails, or the write fails after some prefix of
  the data has reached the file.
\<close>

datatype io = Succeeds | OpenFails | WriteFails nat

text \<open>
  The body of the \<open>try\<close> block of \<open>save_user_to_file\<close>: the exception it raises, if
  any, and the state it leaves. Opening in append mode creates a missing file and
  keeps the contents of an existing one; the write goes to the end.
\<close>

definition save_body :: "pyobj \<Rightarrow> string \<Rightarrow> io \<Rightarrow> st \<Rightarrow> exn option \<times> st" where
  "save_body user_info filename d s =
     (case d of
        OpenFails \<Rightarrow> (Some OSError, s)
      | _ \<Rightarrow>
        (let s1 = s\<lparr>files := (files s)(filename \<mapsto> contents s filename)\<rparr>
         in case user_info of
              Val v \<Rightarrow> (Some AttributeError, s1)
            | Dict u \<Rightarrow>
              (let email = py_or (py_or (dict_get u ''Username'') (dict_get u ''Email'')) (PStr []);
                   password = py_or (dict_get u ''One-time_password'') (PStr []);
                   line = py_str email @ ''----'' @ py_str password @ [CHR 0x0A]
               in case d of
                    WriteFails n \<Rightarrow>
                      (Some OSError,
                       s1\<lparr>files := (files s1)(filename \<mapsto> contents s1 filename @ take n line)\<rparr>)
                  | _ \<Rightarrow>
                      (None,
                       s1\<lparr>files := (files s1)(filename \<mapsto> contents s1 filename @ line)\<rparr>))))"

text \<open>
  \<open>save_user_to_file\<close>: the body under \<open>try\<close>, with the handler that logs and
  swallows. The first component is the exception that reaches the caller.
\<close>

definition save_user_to_file :: "pyobj \<Rightarrow> string \<Rightarrow> io \<Rightarrow> st \<Rightarrow> exn option \<times> st" where
  "save_user_to_file user_info filename d s =
     (case save_body user_info filename d s of
        (None, s') \<Rightarrow> (None, log ''[OK]'' ''INFO'' s')
      | (Some e, s') \<Rightarrow> (None, log ''[WARN]'' ''INFO'' s'))"

section \<open>The browser session\<close>

text \<open>
  What the console does is outside the program, so each call into the browser is
  answered by the world the run takes place in. For the login page: loading it
  raises (that call is outside the \<open>try\<close> of \<open>login_aws_console\<close>), filling and
  submitting the form raises (inside the \<open>try\<close>), or the form is submitted and the
  browser lands on a page whose URL is at the console or not.
\<close>

datatype login_run = GetRaises | FormRaises | Landed bool

definition login_aws_console ::
  "string \<Rightarrow> string \<Rightarrow> login_run \<Rightarrow> st \<Rightarrow> (exn + bool) \<times> st" where
  "login_aws_console username password r s =
     (let s1 = say (Login username password) s
      in case r of
           GetRaises \<Rightarrow> (Inl WebDriverException, s1)
         | FormRaises \<Rightarrow> (Inr False, log ''[FAIL]'' ''ERR'' s1)
         | Landed on_console \<Rightarrow>
             (if on_console then (Inr True, log ''[OK]'' ''INFO'' s1)
              else (Inr True, log ''[WARN]'' ''INFO'' s1)))"

text \<open>
  For one pass through the add-user wizard: a step that is not under an inner
  \<open>try\<close> raises, no "Add user" button is found by any of the three lookups, or the
  wizard is driven to its end. In the last case the page determines what each of
  the four password extractors yields, after the checks the script applies to a
  candidate: the value next to the "One-time password" label, the first direct
  read of the page, the second direct read, and the clipboard. An extractor that
  raises yields nothing, as its handler only logs.
\<close>

record scrape =
  label_otp :: "string option"
  page_otp :: "string option"
  retry_otp :: "string option"
  clipboard_otp :: "string option"

datatype page_run = StepRaises | NoAddUserButton | Submitted scrape

text \<open>Truth value of a variable that holds \<open>None\<close> or a string.\<close>

definition is_set :: "string option \<Rightarrow> bool" where
  "is_set x = (case x of None \<Rightarrow> False | Some t \<Rightarrow> t \<noteq> [])"

text \<open>
  The value of \<open>otp_password\<close> when the result is built. The first direct read
  overwrites the label's value; the second read and the clipboard are consulted
  only while nothing has been found.
\<close>

definition scrape_otp :: "scrape \<Rightarrow> string option" where
  "scrape_otp sc =
     (let otp_password = None;
          otp_password = (case label_otp sc of Some c \<Rightarrow> Some c | None \<Rightarrow> otp_password);
          otp_password = (if is_set (page_otp sc) then page_otp sc else otp_password)
      in if \<not> is_set otp_password then
           (let otp_password = (if is_set (retry_otp sc) then retry_otp sc else otp_password)
            in if \<not> is_set otp_password then
                 (case clipboard_otp sc of Some c \<Rightarrow> Some c | None \<Rightarrow> otp_password)
               else otp_password)
         else otp_password)"

definition opt_or_empty :: "string option \<Rightarrow> string" where
  "opt_or_empty x = (if is_set x then the x else [])"

definition create_user_via_browser ::
  "string \<Rightarrow> string \<Rightarrow> string \<Rightarrow> page_run \<Rightarrow> st \<Rightarrow> pyobj \<times> st" where
  "create_user_via_browser email given_name family_name r s =
     (let s1 = say (Create email given_name family_name) s
      in case r of
           StepRaises \<Rightarrow> (Val (PBool False), log ''[FAIL]'' ''ERR'' s1)
         | NoAddUserButton \<Rightarrow> (Val (PBool False), log ''[FAIL]'' ''ERR'' s1)
         | Submitted sc \<Rightarrow>
             (let otp_password = scrape_otp sc;
                  result_data =
                    [(''success'', PBool True),
                     (''Username'', PStr email),
                     (''Name'', PStr (given_name @ '' '' @ family_name)),
                     (''First_name'', PStr given_name),
                     (''Last_name'', PStr family_name),
                     (''One-time_password'', PStr (opt_or_empty otp_password))]
              in (Dict result_data, log ''[OK]'' ''INFO'' s1)))"

section \<open>The registration loop\<close>

text \<open>
  The world of one run: whether the browser-automation packages import, whether
  Chrome starts, how the login goes, how the wizard goes in each iteration, what
  the file system does with each iteration's write, what each iteration draws at
  random, and whether the final prompt on standard input can be answered.
\<close>

record world =
  deps_importable :: bool
  chrome_starts :: bool
  login_page :: login_run
  pages :: "nat \<Rightarrow> page_run"
  disk :: "nat \<Rightarrow> io"
  dice :: "nat \<Rightarrow> nat \<Rightarrow> nat"
  stdin_open :: bool

definition output_file :: string where
  "output_file = ''created_users.txt''"

text \<open>The identity of iteration \<open>i\<close>: the e-mail address is drawn first, then the name.\<close>

definition identity :: "world \<Rightarrow> nat \<Rightarrow> string \<times> string \<times> string" where
  "identity w i =
     (let (email, p) = generate_random_email ''gmail.com'' (dice w i) 0;
          ((given_name, family_name), p') = generate_random_name (dice w i) p
      in (email, given_name, family_name))"

text \<open>
  The test \<open>result and isinstance(result, dict) and result.get('success')\<close>: the
  dictionary, when the result passes it.
\<close>

definition succeeded :: "pyobj \<Rightarrow> pydict option" where
  "succeeded result =
     (case result of
        Dict r \<Rightarrow> if truthy_obj result \<and> truthy (dict_get r ''success'') then Some r else None
      | Val v \<Rightarrow> None)"

text \<open>
  One pass through the body of the \<open>for\<close> loop of \<open>register_users\<close>. The second
  branch is the one the script keeps for a bare \<open>True\<close> result.
\<close>

definition register_step :: "world \<Rightarrow> nat \<Rightarrow> pydict list \<Rightarrow> st \<Rightarrow> pydict list \<times> st" where
  "register_step w i created_users s =
     (let (email, given_name, family_name) = identity w i;
          (result, s1) = create_user_via_browser email given_name family_name (pages w i) s
      in case succeeded result of
           Some r \<Rightarrow>
             (let user_info = filter (\<lambda>(k, v). k \<noteq> ''success'') r
              in (created_users @ [r],
                  snd (save_user_to_file (Dict user_info) output_file (disk w i) s1)))
         | None \<Rightarrow>
             if truthy_obj result then
               (let user_info =
                      [(''Username'', PStr email),
                       (''Name'', PStr (given_name @ '' '' @ family_name)),
                       (''One-time_password'', PNone)]
                in (created_users @ [user_info],
                    snd (save_user_to_file (Dict user_info) output_file (disk w i) s1)))
             else (created_users, s1))"

fun register_loop :: "world \<Rightarrow> nat list \<Rightarrow> pydict list \<Rightarrow> st \<Rightarrow> pydict list \<times> st" where
  "register_loop w [] created_users s = (created_users, s)"
| "register_loop w (i # is) created_users s =
     (let (created_users', s') = register_step w i created_users s
      in register_loop w is created_users' s')"

text \<open>
  The \<open>finally\<close> block: with a driver at hand it waits for Enter and quits the
  browser; when the prompt cannot be read the error is swallowed and the browser
  is left alone.
\<close>

definition finally_quit :: "world \<Rightarrow> st \<Rightarrow> st" where
  "finally_quit w s = (if stdin_open w then say Quit s else s)"

text \<open>
  \<open>register_users\<close>. \<open>range(count)\<close> is empty for a count below one. An exception
  that reaches the outer \<open>try\<close> (Chrome does not start, the login page does not
  load) is logged, and the users created so far are returned.
\<close>

definition register_users ::
  "int \<Rightarrow> string \<Rightarrow> string \<Rightarrow> bool \<Rightarrow> world \<Rightarrow> st \<Rightarrow> pydict list \<times> st" where
  "register_users n aws_username aws_password headless w s =
     (if \<not> deps_importable w then ([], log ''[INFO]'' ''ERR'' (log ''[FAIL]'' ''ERR'' s))
      else
        (let created_users = [];
             s1 = say Launch s
         in if \<not> chrome_starts w then (created_users, log ''[FAIL]'' ''ERR'' s1)
            else
              (case login_aws_console aws_username aws_password (login_page w) s1 of
                 (Inl e, s2) \<Rightarrow> (created_users, finally_quit w (log ''[FAIL]'' ''ERR'' s2))
               | (Inr ok, s2) \<Rightarrow>
                   (if \<not> ok then ([], finally_quit w (log ''[FAIL]'' ''ERR'' s2))
                    else
                      (let (created_users', s3) = register_loop w [0..<nat n] created_users s2
                       in (created_users', finally_quit w s3))))))"

section \<open>The command line\<close>

text \<open>
  The parser is the table of arguments that \<open>main\<close> registers, preceded by the
  \<open>-h\<close>/\<open>--help\<close> argument that \<open>argparse.ArgumentParser\<close> registers itself unless
  it is constructed with \<open>add_help=False\<close>; \<open>main\<close> passes only a description.
\<close>

datatype nsval = NNone | NStr string | NInt int | NBool bool

datatype action = Help | Store | Store_true

datatype argtype = TStr | TInt

record argument =
  option_strings :: "string list"
  dest :: string
  action :: action
  argtype :: argtype
  required :: bool
  default_value :: nsval

definition help_argument :: argument where
  "help_argument =
     \<lparr>option_strings = [''-h'', ''--help''], dest = ''help'', action = Help,
      argtype = TStr, required = False, default_value = NNone\<rparr>"

definition ArgumentParser :: "argument list" where
  "ArgumentParser = [help_argument]"

definition username_argument :: argument where
  "username_argument =
     \<lparr>option_strings = [''--username'', ''-u''], dest = ''username'', action = Store,
      argtype = TStr, required = True, default_value = NNone\<rparr>"

definition password_argument :: argument where
  "password_argument =
     \<lparr>option_strings = [''--password'', ''-p''], dest = ''password'', action = Store,
      argtype = TStr, required = True, default_value = NNone\<rparr>"

definition count_argument :: argument where
  "count_argument =
     \<lparr>option_strings = [''--count'', ''-c''], dest = ''count'', action = Store,
      argtype = TInt, required = False, default_value = NInt 1\<rparr>"

definition headless_argument :: argument where
  "headless_argument =
     \<lparr>option_strings = [''--headless''], dest = ''headless'', action = Store_true,
      argtype = TStr, required = False, default_value = NBool False\<rparr>"

definition main_parser :: "argument list" where
  "main_parser = ArgumentParser @
     [username_argument, password_argument, count_argument, headless_argument]"

text \<open>
  Parsing is modelled on the argument vectors in which every token is either one of
  the registered option strings, spelled in full, or a plain token that does not
  begin with a dash. On any other vector (abbreviated options, \<open>--opt=value\<close>,
  values glued to a short option, tokens that look like negative numbers, \<open>--\<close>) the
  model gives no answer: \<open>None\<close>.
\<close>

definition find_action :: "argument list \<Rightarrow> string \<Rightarrow> argument option" where
  "find_action ps tok = find (\<lambda>a. tok \<in> set (option_strings a)) ps"

definition is_plain :: "string \<Rightarrow> bool" where
  "is_plain tok = (case tok of [] \<Rightarrow> True | c # cs \<Rightarrow> c \<noteq> CHR ''-'')"

definition in_fragment :: "argument list \<Rightarrow> string list \<Rightarrow> bool" where
  "in_fragment ps argv = list_all (\<lambda>tok. is_plain tok \<or> find_action ps tok \<noteq> None) argv"

definition is_digit :: "char \<Rightarrow> bool" where
  "is_digit c = (c \<in> set digits)"

definition is_alnum :: "char \<Rightarrow> bool" where
  "is_alnum c = (c \<in> set (digits @ ascii_lowercase @ ''ABCDEFGHIJKLMNOPQRSTUVWXYZ''))"

definition digit_value :: "char \<Rightarrow> int" where
  "digit_value c = int (of_char c) - 48"

text \<open>
  \<open>int(tok)\<close> on a string of decimal digits is its value; on any other string of
  ASCII letters and digits, and on the empty string, it raises \<open>ValueError\<close> (the
  inner \<open>None\<close>). Signs, underscores, blanks and other characters are not modelled
  (the outer \<open>None\<close>).
\<close>

definition py_int :: "string \<Rightarrow> int option option" where
  "py_int tok =
     (if tok \<noteq> [] \<and> list_all is_digit tok
      then Some (Some (foldl (\<lambda>acc c. 10 * acc + digit_value c) 0 tok))
      else if list_all is_alnum tok then Some None
      else None)"

definition convert :: "argtype \<Rightarrow> string \<Rightarrow> nsval option option" where
  "convert t tok =
     (case t of
        TStr \<Rightarrow> Some (Some (NStr tok))
      | TInt \<Rightarrow> map_option (map_option NInt) (py_int tok))"

record pstate =
  namespace :: "string \<rightharpoonup> nsval"
  seen :: "string list"
  extras :: "string list"

definition set_attr :: "argument \<Rightarrow> nsval \<Rightarrow> pstate \<Rightarrow> pstate" where
  "set_attr a v p = p\<lparr>namespace := (namespace p)(dest a \<mapsto> v), seen := dest a # seen p\<rparr>"

text \<open>
  The tokens are consumed from left to right. The help action prints the usage and
  exits with status 0 at once; an error (a missing or ill-typed value) exits with
  status 2; a plain token that no option takes is kept as an extra.
\<close>

fun parse_loop :: "argument list \<Rightarrow> string list \<Rightarrow> pstate \<Rightarrow> (exn + pstate) option" where
  "parse_loop ps [] p = Some (Inr p)"
| "parse_loop ps (tok # toks) p =
     (case find_action ps tok of
        None \<Rightarrow> parse_loop ps toks (p\<lparr>extras := extras p @ [tok]\<rparr>)
      | Some a \<Rightarrow>
          (case action a of
             Help \<Rightarrow> Some (Inl (SystemExit 0))
           | Store_true \<Rightarrow> parse_loop ps toks (set_attr a (NBool True) p)
           | Store \<Rightarrow>
               (case toks of
                  [] \<Rightarrow> Some (Inl (SystemExit 2))
                | v # rest \<Rightarrow>
                    (if find_action ps v \<noteq> None then Some (Inl (SystemExit 2))
                     else (case convert (argtype a) v of
                             None \<Rightarrow> None
                           | Some None \<Rightarrow> Some (Inl (SystemExit 2))
                           | Some (Some x) \<Rightarrow> parse_loop ps rest (set_attr a x p))))))"

definition defaults :: "argument list \<Rightarrow> string \<rightharpoonup> nsval" where
  "defaults ps = map_of (map (\<lambda>a. (dest a, default_value a)) (filter (\<lambda>a. action a \<noteq> Help) ps))"

definition parse_args :: "argument list \<Rightarrow> string list \<Rightarrow> (exn + (string \<rightharpoonup> nsval)) option" where
  "parse_args ps argv =
     (if \<not> in_fragment ps argv then None
      else
        (case parse_loop ps argv \<lparr>namespace = defaults ps, seen = [], extras = []\<rparr> of
           None \<Rightarrow> None
         | Some (Inl e) \<Rightarrow> Some (Inl e)
         | Some (Inr p) \<Rightarrow>
             (if list_ex (\<lambda>a. required a \<and> dest a \<notin> set (seen p)) ps
              then Some (Inl (SystemExit 2))
              else if extras p \<noteq> [] then Some (Inl (SystemExit 2))
              else Some (Inr (namespace p)))))"

section \<open>The entry point\<close>

text \<open>The summary loop of \<open>main\<close>: it indexes each created user by \<open>email\<close> and \<open>name\<close>.\<close>

fun print_users :: "pydict list \<Rightarrow> st \<Rightarrow> exn option \<times> st" where
  "print_users [] s = (None, s)"
| "print_users (user # users) s =
     (case dict_index user ''email'' of
        Inl e \<Rightarrow> (Some e, s)
      | Inr email \<Rightarrow>
          (let s1 = say (Print (py_str email)) s
           in case dict_index user ''name'' of
                Inl e \<Rightarrow> (Some e, s1)
              | Inr name \<Rightarrow>
                  (let s2 = say (Print (py_str name)) s1;
                       s3 = (if truthy (dict_get user ''otp'')
                             then say (Print (py_str (dict_get user ''otp''))) s2
                             else say (Print []) s2);
                       s4 = say (Print (replicate 30 (CHR ''-''))) s3
                   in print_users users s4)))"

text \<open>\<open>main\<close> from the point where the arguments have been parsed.\<close>

definition main_run :: "int \<Rightarrow> string \<Rightarrow> string \<Rightarrow> bool \<Rightarrow> world \<Rightarrow> st \<Rightarrow> (exn + int) \<times> st" where
  "main_run n username password headless w s =
     (let (created_users, s1) = register_users n username password headless w s
      in if created_users \<noteq> [] then
           (case print_users created_users s1 of
              (Some e, s2) \<Rightarrow> (Inl e, s2)
            | (None, s2) \<Rightarrow> (Inr (if created_users \<noteq> [] then 0 else 1), s2))
         else (Inr (if created_users \<noteq> [] then 0 else 1), s1))"

definition main :: "string list \<Rightarrow> world \<Rightarrow> st \<Rightarrow> ((exn + int) \<times> st) option" where
  "main argv w s =
     (case parse_args main_parser argv of
        None \<Rightarrow> None
      | Some (Inl e) \<Rightarrow> Some (Inl e, s)
      | Some (Inr ns) \<Rightarrow>
          (case (ns ''count'', ns ''username'', ns ''password'', ns ''headless'') of
             (Some (NInt n), Some (NStr u), Some (NStr p), Some (NBool h)) \<Rightarrow>
               Some (main_run n u p h w s)
           | _ \<Rightarrow> None))"

text \<open>
  \<open>sys.exit(main())\<close>: the returned integer is the exit status; \<open>SystemExit\<close> carries
  its own; any other exception that leaves \<open>main\<close> ends the process with status 1.
\<close>

definition exit_status :: "exn + int \<Rightarrow> int" where
  "exit_status r = (case r of Inr rc \<Rightarrow> rc | Inl (SystemExit c) \<Rightarrow> c | Inl e \<Rightarrow> 1)"

definition process_exit :: "string list \<Rightarrow> world \<Rightarrow> st \<Rightarrow> int option" where
  "process_exit argv w s = map_option (\<lambda>(r, s'). exit_status r) (main argv w s)"

section \<open>Auxiliary definitions\<close>

text \<open>What the parser state holds for each destination while the main parser runs.\<close>

definition typed :: "pstate \<Rightarrow> bool" where
  "typed p \<longleftrightarrow>
     (\<exists>n. namespace p ''count'' = Some (NInt n)) \<and>
     (\<exists>b. namespace p ''headless'' = Some (NBool b)) \<and>
     (''username'' \<in> set (seen p) \<longrightarrow> (\<exists>u. namespace p ''username'' = Some (NStr u))) \<and>
     (''password'' \<in> set (seen p) \<longrightarrow> (\<exists>u. namespace p ''password'' = Some (NStr u)))"

text \<open>
  The two fields of a saved line in the words of the specification: the user name,
  falling back to the e-mail address and then to the empty string; the one-time
  password, falling back to the empty string.
\<close>

definition spec_email :: "pydict \<Rightarrow> string" where
  "spec_email u =
     (if truthy (dict_get u ''Username'') then py_str (dict_get u ''Username'')
      else if truthy (dict_get u ''Email'') then py_str (dict_get u ''Email'')
      else [])"

definition spec_password :: "pydict \<Rightarrow> string" where
  "spec_password u =
     (if truthy (dict_get u ''One-time_password'') then py_str (dict_get u ''One-time_password'')
      else [])"

text \<open>A state with no files and no events, and a world in which every step succeeds.\<close>

definition empty_state :: st where
  "empty_state = \<lparr>files = Map.empty, trace = []\<rparr>"

definition sample_scrape :: scrape where
  "sample_scrape = \<lparr>label_otp = None, page_otp = Some ''Abc12345!'', retry_otp = None,
     clipboard_otp = None\<rparr>"

definition sample_world :: world where
  "sample_world =
     \<lparr>deps_importable = True, chrome_starts = True, login_page = Landed True,
      pages = (\<lambda>i. Submitted sample_scrape), disk = (\<lambda>i. Succeeds),
      dice = (\<lambda>i k. i + k), stdin_open = True\<rparr>"

text \<open>How often the trace records a call of \<open>create_user_via_browser\<close> and of \<open>login_aws_console\<close>.\<close>

definition creations :: "st \<Rightarrow> nat" where
  "creations s = length (filter (\<lambda>e. case e of Create a b c \<Rightarrow> True | _ \<Rightarrow> False) (trace s))"

definition logins :: "st \<Rightarrow> nat" where
  "logins s = length (filter (\<lambda>e. case e of Login a b \<Rightarrow> True | _ \<Rightarrow> False) (trace s))"

text \<open>A page on which no extractor finds a password.\<close>

definition empty_scrape :: scrape where
  "empty_scrape = \<lparr>label_otp = None, page_otp = None, retry_otp = None, clipboard_otp = None\<rparr>"

section \<open>Properties\<close>

subsection \<open>The command line\<close>

lemmas arg_defs = help_argument_def username_argument_def password_argument_def
  count_argument_def headless_argument_def


lemma parse_loop_run:
  assumes run: "parse_loop ps toks p = Some (Inr p')"
    and base: "\<And>q. R [] q q"
    and extra: "\<And>tok rest q q'. find_action ps tok = None \<Longrightarrow>
                  R rest (q\<lparr>extras := extras q @ [tok]\<rparr>) q' \<Longrightarrow> R (tok # rest) q q'"
    and flag: "\<And>tok rest a q q'. find_action ps tok = Some a \<Longrightarrow> action a = Store_true \<Longrightarrow>
                  R rest (set_attr a (NBool True) q) q' \<Longrightarrow> R (tok # rest) q q'"
    and val: "\<And>tok v rest a x q q'. find_action ps tok = Some a \<Longrightarrow> action a = Store \<Longrightarrow>
                  find_action ps v = None \<Longrightarrow> convert (argtype a) v = Some (Some x) \<Longrightarrow>
                  R rest (set_attr a x q) q' \<Longrightarrow> R (tok # v # rest) q q'"
  shows "R toks p p'"
  using run
proof (induction "length toks" arbitrary: toks p rule: less_induct)
  case less
  show ?case
  proof (cases toks)
    case Nil
    with less.prems show ?thesis by (simp add: base)
  next
    case (Cons tok rest)
    note toks = this
    show ?thesis
    proof (cases "find_action ps tok")
      case None
      with less.prems toks
      have "parse_loop ps rest (p\<lparr>extras := extras p @ [tok]\<rparr>) = Some (Inr p')" by simp
      then have "R rest (p\<lparr>extras := extras p @ [tok]\<rparr>) p'"
        using less.hyps [of rest] toks by simp
      then show ?thesis using extra [OF None] toks by simp
    next
      case (Some a)
      note act = this
      show ?thesis
      proof (cases "action a")
        case Help
        with act less.prems toks show ?thesis by simp
      next
        case Store_true
        with act less.prems toks
        have "parse_loop ps rest (set_attr a (NBool True) p) = Some (Inr p')" by simp
        then have "R rest (set_attr a (NBool True) p) p'"
          using less.hyps [of rest] toks by simp
        then show ?thesis using flag [OF act Store_true] toks by simp
      next
        case Store
        from act Store less.prems toks obtain v rest' x where
          rest: "rest = v # rest'" and
          v: "find_action ps v = None" and
          conv: "convert (argtype a) v = Some (Some x)" and
          go: "parse_loop ps rest' (set_attr a x p) = Some (Inr p')"
          by (auto split: list.splits if_splits option.splits)
        from go have "R rest' (set_attr a x p) p'"
          using less.hyps [of rest'] toks rest by simp
        then show ?thesis using val [OF act Store v conv] toks rest by simp
      qed
    qed
  qed
qed

lemma find_action_mem:
  "find_action ps tok = Some a \<Longrightarrow> a \<in> set ps \<and> tok \<in> set (option_strings a)"
  by (auto simp: find_action_def find_Some_iff)

lemma main_parser_cases:
  "a \<in> set main_parser \<Longrightarrow>
   a = help_argument \<or> a = username_argument \<or> a = password_argument \<or>
   a = count_argument \<or> a = headless_argument"
  by (auto simp: main_parser_def ArgumentParser_def)

lemma store_main:
  assumes "find_action main_parser tok = Some a" and "action a = Store"
  shows "a = username_argument \<or> a = password_argument \<or> a = count_argument"
proof -
  from assms(1) have "a \<in> set main_parser" by (simp add: find_action_mem)
  then have "a = help_argument \<or> a = username_argument \<or> a = password_argument \<or>
             a = count_argument \<or> a = headless_argument"
    by (rule main_parser_cases)
  moreover have "action help_argument \<noteq> Store" by (simp add: help_argument_def)
  moreover have "action headless_argument \<noteq> Store" by (simp add: headless_argument_def)
  ultimately show ?thesis using assms(2) by auto
qed

lemma store_true_main:
  assumes "find_action main_parser tok = Some a" and "action a = Store_true"
  shows "a = headless_argument \<and> tok = ''--headless''"
proof -
  from assms(1) have mem: "a \<in> set main_parser" and tok: "tok \<in> set (option_strings a)"
    by (simp_all add: find_action_mem)
  from mem have "a = help_argument \<or> a = username_argument \<or> a = password_argument \<or>
             a = count_argument \<or> a = headless_argument"
    by (rule main_parser_cases)
  moreover have "action help_argument \<noteq> Store_true" by (simp add: help_argument_def)
  moreover have "action username_argument \<noteq> Store_true" by (simp add: username_argument_def)
  moreover have "action password_argument \<noteq> Store_true" by (simp add: password_argument_def)
  moreover have "action count_argument \<noteq> Store_true" by (simp add: count_argument_def)
  ultimately have a: "a = headless_argument" using assms(2) by auto
  with tok have "tok = ''--headless''" by (simp add: headless_argument_def)
  with a show ?thesis by simp
qed

lemma convert_int: "convert TInt v = Some (Some x) \<Longrightarrow> \<exists>n. x = NInt n"
  by (auto simp: convert_def)

lemma convert_str: "convert TStr v = Some (Some x) \<Longrightarrow> x = NStr v"
  by (auto simp: convert_def)


lemma parse_loop_seen:
  assumes "parse_loop ps toks p = Some (Inr p')" and "d \<in> set (seen p')"
  shows "d \<in> set (seen p) \<or> (\<exists>tok a. tok \<in> set toks \<and> find_action ps tok = Some a \<and> dest a = d)"
proof -
  have "d \<in> set (seen p') \<longrightarrow>
        d \<in> set (seen p) \<or> (\<exists>tok a. tok \<in> set toks \<and> find_action ps tok = Some a \<and> dest a = d)"
    by (rule parse_loop_run [OF assms(1)]) (auto simp: set_attr_def)
  with assms(2) show ?thesis by simp
qed


lemma parse_loop_untouched:
  assumes "parse_loop ps toks p = Some (Inr p')"
    and "\<And>tok a. tok \<in> set toks \<Longrightarrow> find_action ps tok = Some a \<Longrightarrow> dest a \<noteq> d"
  shows "namespace p' d = namespace p d"
proof -
  have "(\<forall>tok a. tok \<in> set toks \<longrightarrow> find_action ps tok = Some a \<longrightarrow> dest a \<noteq> d) \<longrightarrow>
        namespace p' d = namespace p d"
    by (rule parse_loop_run [OF assms(1)]) (auto simp: set_attr_def)
  with assms(2) show ?thesis by blast
qed


lemma find_headless: "find_action main_parser ''--headless'' = Some headless_argument"
  by (simp add: find_action_def main_parser_def ArgumentParser_def arg_defs)



lemma parse_loop_typed:
  assumes "parse_loop main_parser toks p = Some (Inr p')" and "typed p"
  shows "typed p'"
proof -
  have "typed p \<longrightarrow> typed p'"
  proof (rule parse_loop_run [OF assms(1)])
    fix tok rest a q q'
    assume "find_action main_parser tok = Some a" "action a = Store_true"
      and step: "typed (set_attr a (NBool True) q) \<longrightarrow> typed q'"
    then have "a = headless_argument" by (simp add: store_true_main)
    then have "typed q \<Longrightarrow> typed (set_attr a (NBool True) q)"
      by (auto simp: typed_def set_attr_def arg_defs)
    with step show "typed q \<longrightarrow> typed q'" by blast
  next
    fix tok v rest a x q q'
    assume "find_action main_parser tok = Some a" "action a = Store"
      and conv: "convert (argtype a) v = Some (Some x)"
      and step: "typed (set_attr a x q) \<longrightarrow> typed q'"
    then consider "a = username_argument" | "a = password_argument" | "a = count_argument"
      using store_main by blast
    then have "typed q \<Longrightarrow> typed (set_attr a x q)"
    proof cases
      case 1
      with conv have "x = NStr v" by (simp add: arg_defs convert_str)
      with 1 show "typed q \<Longrightarrow> typed (set_attr a x q)"
        by (auto simp: typed_def set_attr_def arg_defs)
    next
      case 2
      with conv have "x = NStr v" by (simp add: arg_defs convert_str)
      with 2 show "typed q \<Longrightarrow> typed (set_attr a x q)"
        by (auto simp: typed_def set_attr_def arg_defs)
    next
      case 3
      with conv obtain n where "x = NInt n" by (auto simp: arg_defs dest: convert_int)
      with 3 show "typed q \<Longrightarrow> typed (set_attr a x q)"
        by (auto simp: typed_def set_attr_def arg_defs)
    qed
    with step show "typed q \<longrightarrow> typed q'" by blast
  qed (auto simp: typed_def)
  with assms(2) show ?thesis by simp
qed




lemma parse_loop_headless:
  assumes "parse_loop main_parser toks p = Some (Inr p')"
    and "''--headless'' \<in> set toks \<or> namespace p ''headless'' = Some (NBool True)"
  shows "namespace p' ''headless'' = Some (NBool True)"
proof -
  have "(''--headless'' \<in> set toks \<or> namespace p ''headless'' = Some (NBool True)) \<longrightarrow>
        namespace p' ''headless'' = Some (NBool True)"
  proof (rule parse_loop_run [OF assms(1)])
    fix tok rest q q'
    assume "find_action main_parser tok = None"
      and "(''--headless'' \<in> set rest \<or>
            namespace (q\<lparr>extras := extras q @ [tok]\<rparr>) ''headless'' = Some (NBool True)) \<longrightarrow>
           namespace q' ''headless'' = Some (NBool True)"
    then show "(''--headless'' \<in> set (tok # rest) \<or> namespace q ''headless'' = Some (NBool True)) \<longrightarrow>
               namespace q' ''headless'' = Some (NBool True)"
      using find_headless by auto
  next
    fix tok rest a q q'
    assume "find_action main_parser tok = Some a" "action a = Store_true"
      and step: "(''--headless'' \<in> set rest \<or>
            namespace (set_attr a (NBool True) q) ''headless'' = Some (NBool True)) \<longrightarrow>
           namespace q' ''headless'' = Some (NBool True)"
    then have "a = headless_argument" by (simp add: store_true_main)
    then have "namespace (set_attr a (NBool True) q) ''headless'' = Some (NBool True)"
      by (simp add: set_attr_def arg_defs)
    with step show "(''--headless'' \<in> set (tok # rest) \<or> namespace q ''headless'' = Some (NBool True)) \<longrightarrow>
               namespace q' ''headless'' = Some (NBool True)"
      by blast
  next
    fix tok v rest a x q q'
    assume act: "find_action main_parser tok = Some a" "action a = Store"
      and v: "find_action main_parser v = None"
      and step: "(''--headless'' \<in> set rest \<or>
            namespace (set_attr a x q) ''headless'' = Some (NBool True)) \<longrightarrow>
           namespace q' ''headless'' = Some (NBool True)"
    from store_main [OF act] have d: "dest a \<noteq> ''headless''"
      by (auto simp: arg_defs)
    from act have t: "tok \<noteq> ''--headless''"
      using find_headless by (auto simp: headless_argument_def)
    from v have "v \<noteq> ''--headless''" using find_headless by auto
    with d t step
    show "(''--headless'' \<in> set (tok # v # rest) \<or> namespace q ''headless'' = Some (NBool True)) \<longrightarrow>
               namespace q' ''headless'' = Some (NBool True)"
      by (auto simp: set_attr_def)
  qed simp
  with assms(2) show ?thesis by simp
qed






lemma defaults_main:
  "defaults main_parser ''count'' = Some (NInt 1)"
  "defaults main_parser ''headless'' = Some (NBool False)"
  by (simp_all add: defaults_def main_parser_def ArgumentParser_def arg_defs)

lemma dest_username:
  assumes "find_action main_parser tok = Some a" and "dest a = ''username''"
  shows "tok = ''--username'' \<or> tok = ''-u''"
proof -
  from assms(1) have mem: "a \<in> set main_parser" and tok: "tok \<in> set (option_strings a)"
    by (simp_all add: find_action_mem)
  from mem assms(2) have "a = username_argument"
    by (auto dest!: main_parser_cases simp: arg_defs)
  with tok show ?thesis by (simp add: username_argument_def)
qed

lemma dest_password:
  assumes "find_action main_parser tok = Some a" and "dest a = ''password''"
  shows "tok = ''--password'' \<or> tok = ''-p''"
proof -
  from assms(1) have mem: "a \<in> set main_parser" and tok: "tok \<in> set (option_strings a)"
    by (simp_all add: find_action_mem)
  from mem assms(2) have "a = password_argument"
    by (auto dest!: main_parser_cases simp: arg_defs)
  with tok show ?thesis by (simp add: password_argument_def)
qed

lemma dest_count:
  assumes "find_action main_parser tok = Some a" and "dest a = ''count''"
  shows "tok = ''--count'' \<or> tok = ''-c''"
proof -
  from assms(1) have mem: "a \<in> set main_parser" and tok: "tok \<in> set (option_strings a)"
    by (simp_all add: find_action_mem)
  from mem assms(2) have "a = count_argument"
    by (auto dest!: main_parser_cases simp: arg_defs)
  with tok show ?thesis by (simp add: count_argument_def)
qed

lemma dest_headless:
  assumes "find_action main_parser tok = Some a" and "dest a = ''headless''"
  shows "tok = ''--headless''"
proof -
  from assms(1) have mem: "a \<in> set main_parser" and tok: "tok \<in> set (option_strings a)"
    by (simp_all add: find_action_mem)
  from mem assms(2) have "a = headless_argument"
    by (auto dest!: main_parser_cases simp: arg_defs)
  with tok show ?thesis by (simp add: headless_argument_def)
qed

lemma required_main:
  "list_ex (\<lambda>a. required a \<and> dest a \<notin> set xs) main_parser \<longleftrightarrow>
   ''username'' \<notin> set xs \<or> ''password'' \<notin> set xs"
  by (simp add: main_parser_def ArgumentParser_def arg_defs)

lemma parse_args_Inr:
  assumes "parse_args main_parser argv = Some (Inr ns)"
  obtains p where
    "parse_loop main_parser argv \<lparr>namespace = defaults main_parser, seen = [], extras = []\<rparr> = Some (Inr p)"
    "ns = namespace p" "''username'' \<in> set (seen p)" "''password'' \<in> set (seen p)"
  using assms
  by (auto simp: parse_args_def required_main split: if_splits option.splits sum.splits)




lemma parse_args_values:
  assumes ok: "parse_args main_parser argv = Some (Inr ns)"
  shows "(''--username'' \<in> set argv \<or> ''-u'' \<in> set argv) \<and>
      (''--password'' \<in> set argv \<or> ''-p'' \<in> set argv) \<and>
      (\<exists>u p n h.
         ns ''username'' = Some (NStr u) \<and> ns ''password'' = Some (NStr p) \<and>
         ns ''count'' = Some (NInt n) \<and> ns ''headless'' = Some (NBool h) \<and>
         (''--count'' \<notin> set argv \<and> ''-c'' \<notin> set argv \<longrightarrow> n = 1) \<and>
         (h \<longleftrightarrow> ''--headless'' \<in> set argv))"
proof (intro conjI)
  let ?p0 = "\<lparr>namespace = defaults main_parser, seen = [], extras = []\<rparr>"
  from ok obtain p where
    run: "parse_loop main_parser argv ?p0 = Some (Inr p)" and
    ns: "ns = namespace p" and
    su: "''username'' \<in> set (seen p)" and
    sp: "''password'' \<in> set (seen p)"
    by (rule parse_args_Inr)
  from parse_loop_seen [OF run su]
  show "''--username'' \<in> set argv \<or> ''-u'' \<in> set argv"
    by (auto dest: dest_username)
  from parse_loop_seen [OF run sp]
  show "''--password'' \<in> set argv \<or> ''-p'' \<in> set argv"
    by (auto dest: dest_password)
  have "typed ?p0" by (auto simp: typed_def defaults_main)
  with run have "typed p" by (rule parse_loop_typed)
  then have ty:
    "\<exists>n. namespace p ''count'' = Some (NInt n)"
    "\<exists>b. namespace p ''headless'' = Some (NBool b)"
    "\<exists>u. namespace p ''username'' = Some (NStr u)"
    "\<exists>u. namespace p ''password'' = Some (NStr u)"
    using su sp by (simp_all add: typed_def)
  from ty(1) ns obtain n where n: "ns ''count'' = Some (NInt n)" by auto
  from ty(2) ns obtain h where h: "ns ''headless'' = Some (NBool h)" by auto
  from ty(3) ns obtain u where u: "ns ''username'' = Some (NStr u)" by auto
  from ty(4) ns obtain pw where pw: "ns ''password'' = Some (NStr pw)" by auto
  have cnt: "n = 1" if "''--count'' \<notin> set argv \<and> ''-c'' \<notin> set argv"
  proof -
    have "namespace p ''count'' = namespace ?p0 ''count''"
      using run
    proof (rule parse_loop_untouched)
      fix tok a
      assume "tok \<in> set argv" "find_action main_parser tok = Some a"
      with that show "dest a \<noteq> ''count''" by (auto dest: dest_count)
    qed
    with n ns show ?thesis by (simp add: defaults_main)
  qed
  have hl: "h \<longleftrightarrow> ''--headless'' \<in> set argv"
  proof (cases "''--headless'' \<in> set argv")
    case True
    with run have "namespace p ''headless'' = Some (NBool True)"
      by (simp add: parse_loop_headless)
    with h ns True show ?thesis by simp
  next
    case False
    have "namespace p ''headless'' = namespace ?p0 ''headless''"
      using run
    proof (rule parse_loop_untouched)
      fix tok a
      assume "tok \<in> set argv" "find_action main_parser tok = Some a"
      with False show "dest a \<noteq> ''headless''" by (auto dest: dest_headless)
    qed
    with h ns False show ?thesis by (simp add: defaults_main)
  qed
  from u pw n h cnt hl
  show "\<exists>u p n h.
         ns ''username'' = Some (NStr u) \<and> ns ''password'' = Some (NStr p) \<and>
         ns ''count'' = Some (NInt n) \<and> ns ''headless'' = Some (NBool h) \<and>
         (''--count'' \<notin> set argv \<and> ''-c'' \<notin> set argv \<longrightarrow> n = 1) \<and>
         (h \<longleftrightarrow> ''--headless'' \<in> set argv)"
    by blast
qed


lemma parse_sample:
  "parse_args main_parser [''-u'', ''admin'', ''-p'', ''pw''] =
     Some (Inr ((defaults main_parser)(''username'' \<mapsto> NStr ''admin'', ''password'' \<mapsto> NStr ''pw'')))"
  by (simp add: parse_args_def in_fragment_def is_plain_def find_action_def main_parser_def
      ArgumentParser_def arg_defs convert_def set_attr_def)



subsection \<open>Generated identities\<close>

lemma random_choice_mem: "xs \<noteq> [] \<Longrightarrow> fst (random_choice xs rnd pos) \<in> set xs"
  by (simp add: random_choice_def)

lemma random_chars_props:
  "chars \<noteq> [] \<Longrightarrow>
   length (fst (random_chars chars n rnd pos)) = n \<and>
   set (fst (random_chars chars n rnd pos)) \<subseteq> set chars"
proof (induction n arbitrary: pos)
  case 0
  then show ?case by simp
next
  case (Suc n)
  obtain c p where c: "random_choice chars rnd pos = (c, p)" by (cases "random_choice chars rnd pos")
  obtain cs p' where cs: "random_chars chars n rnd p = (cs, p')" by (cases "random_chars chars n rnd p")
  from Suc.prems c have "c \<in> set chars" using random_choice_mem [of chars rnd pos] by simp
  moreover from Suc.IH [OF Suc.prems, of p] cs have "length cs = n \<and> set cs \<subseteq> set chars" by simp
  ultimately show ?case using c cs by simp
qed

lemma generate_random_email_form:
  "\<exists>local. fst (generate_random_email domain rnd pos) = local @ ''@'' @ domain \<and>
           length local = 10 \<and> set local \<subseteq> set (ascii_lowercase @ digits)"
proof -
  let ?chars = "ascii_lowercase @ digits"
  obtain username p where u: "random_chars ?chars 10 rnd pos = (username, p)"
    by (cases "random_chars ?chars 10 rnd pos")
  have "?chars \<noteq> []" by (simp add: digits_def)
  from random_chars_props [OF this, of 10 rnd pos] u
  have "length username = 10 \<and> set username \<subseteq> set ?chars" by simp
  moreover from u have "fst (generate_random_email domain rnd pos) = username @ ''@'' @ domain"
    by (simp add: generate_random_email_def)
  ultimately show ?thesis by blast
qed

lemma generate_random_name_pools:
  "fst (fst (generate_random_name rnd pos)) \<in> set first_names \<and>
   snd (fst (generate_random_name rnd pos)) \<in> set last_names"
proof -
  have f: "first_names \<noteq> []" by (simp add: first_names_def)
  have l: "last_names \<noteq> []" by (simp add: last_names_def)
  obtain a p1 where a: "random_choice first_names rnd pos = (a, p1)"
    by (cases "random_choice first_names rnd pos")
  obtain b p2 where b: "random_choice last_names rnd p1 = (b, p2)"
    by (cases "random_choice last_names rnd p1")
  from random_choice_mem [OF f, of rnd pos] a have "a \<in> set first_names" by simp
  moreover from random_choice_mem [OF l, of rnd p1] b have "b \<in> set last_names" by simp
  ultimately show ?thesis using a b by (simp add: generate_random_name_def)
qed

lemma identity_parts:
  "identity w i =
     (fst (generate_random_email ''gmail.com'' (dice w i) 0),
      fst (generate_random_name (dice w i) (snd (generate_random_email ''gmail.com'' (dice w i) 0))))"
  by (simp add: identity_def split: prod.splits)

lemma identity_sample: "identity sample_world 0 = (''abcdefghij@gmail.com'', ''John'', ''Williams'')"
  by code_simp

lemma identity_pages: "identity (w\<lparr>pages := x\<rparr>) i = identity w i"
  by (simp add: identity_def)

text \<open>
  Claim C6. In every iteration the given name comes from the pool of first names,
  the family name from the pool of last names, and the e-mail address is ten
  characters from the lowercase letters and digits followed by \<open>@gmail.com\<close>; this
  is the identity the iteration hands to \<open>create_user_via_browser\<close>.
\<close>

theorem identity_drawn_from_pools:
  "fst (snd (identity w i)) \<in> set first_names \<and>
   snd (snd (identity w i)) \<in> set last_names \<and>
   (\<exists>local. fst (identity w i) = local @ ''@gmail.com'' \<and> length local = 10 \<and>
            set local \<subseteq> set (ascii_lowercase @ digits)) \<and>
   trace (snd (register_step w i created_users s)) ! length (trace s) =
     Create (fst (identity w i)) (fst (snd (identity w i))) (snd (snd (identity w i)))"
proof (intro conjI)
  show "fst (snd (identity w i)) \<in> set first_names"
    using generate_random_name_pools by (simp add: identity_parts)
  show "snd (snd (identity w i)) \<in> set last_names"
    using generate_random_name_pools by (simp add: identity_parts)
  show "\<exists>local. fst (identity w i) = local @ ''@gmail.com'' \<and> length local = 10 \<and>
            set local \<subseteq> set (ascii_lowercase @ digits)"
    using generate_random_email_form [of "''gmail.com''" "dice w i" 0]
    by (simp add: identity_parts)
  obtain e g f where id: "identity w i = (e, g, f)" by (cases "identity w i") auto
  show "trace (snd (register_step w i created_users s)) ! length (trace s) =
     Create (fst (identity w i)) (fst (snd (identity w i))) (snd (snd (identity w i)))"
    by (cases "pages w i"; cases "disk w i")
       (simp_all add: id register_step_def succeeded_def create_user_via_browser_def save_user_to_file_def
          save_body_def say_def log_def Let_def nth_append split: prod.splits)
qed

subsection \<open>The result of one pass through the wizard\<close>

text \<open>
  Claim C8. \<open>create_user_via_browser\<close> returns either \<open>False\<close> or a dictionary
  in which \<open>success\<close> is \<open>True\<close>, \<open>Username\<close> is the e-mail address it was called
  with, \<open>First_name\<close> and \<open>Last_name\<close> are the names it was called with and
  \<open>One-time_password\<close> is a string, possibly empty. So no dictionary it returns
  has a false \<open>success\<close>.
\<close>

theorem create_user_via_browser_result:
  "fst (create_user_via_browser email given_name family_name r s) = Val (PBool False) \<or>
   (\<exists>d otp. fst (create_user_via_browser email given_name family_name r s) = Dict d \<and>
      map_of d ''success'' = Some (PBool True) \<and>
      map_of d ''Username'' = Some (PStr email) \<and>
      map_of d ''First_name'' = Some (PStr given_name) \<and>
      map_of d ''Last_name'' = Some (PStr family_name) \<and>
      map_of d ''One-time_password'' = Some (PStr otp))"
  by (cases r) (simp_all add: create_user_via_browser_def Let_def)

subsection \<open>Saving a record\<close>

lemma save_body_raises:
  "fst (save_body user_info filename d s) = None \<longleftrightarrow> d = Succeeds \<and> (\<exists>u. user_info = Dict u)"
  by (cases d; cases user_info) (simp_all add: save_body_def Let_def)



lemma save_body_files:
  "files (snd (save_body (Dict u) filename Succeeds s)) =
     (files s)(filename \<mapsto> contents s filename @ spec_email u @ ''----'' @ spec_password u @ [CHR 0x0A])"
  by (simp add: save_body_def Let_def contents_def spec_email_def spec_password_def py_or_def)

lemma save_user_to_file_files:
  "files (snd (save_user_to_file user_info filename d s)) = files (snd (save_body user_info filename d s))"
  by (simp add: save_user_to_file_def log_def say_def split: prod.splits option.splits)

lemma save_body_appends:
  "\<exists>suffix. contents (snd (save_body user_info filename d s)) filename = contents s filename @ suffix"
  by (cases d; cases user_info) (simp_all add: save_body_def Let_def contents_def)

lemma save_body_other_files:
  "g \<noteq> filename \<Longrightarrow> files (snd (save_body user_info filename d s)) g = files s g"
  by (cases d; cases user_info) (simp_all add: save_body_def Let_def)

lemma contents_cong: "files s = files s' \<Longrightarrow> contents s f = contents s' f"
  by (simp add: contents_def)

text \<open>
  Claim C2. \<open>spec_email\<close> and \<open>spec_password\<close> spell the fields out the way the
  claim words them. When the open and the write go through, \<open>save_user_to_file\<close>
  appends exactly the line \<open>email----password\<close> and a newline to the file.
  Whatever the record is and whatever the file system does, what the file held
  before stays as a prefix of what it holds afterwards, and no other file changes.
\<close>

theorem save_user_to_file_appends_line:
  "files (snd (save_user_to_file (Dict u) filename Succeeds s)) =
     (files s)(filename \<mapsto>
        contents s filename @ spec_email u @ ''----'' @ spec_password u @ [CHR 0x0A]) \<and>
   (\<forall>user_info d. \<exists>suffix.
      contents (snd (save_user_to_file user_info filename d s)) filename =
        contents s filename @ suffix) \<and>
   (\<forall>user_info d g. g \<noteq> filename \<longrightarrow>
      files (snd (save_user_to_file user_info filename d s)) g = files s g)"
proof (intro conjI allI impI)
  show "files (snd (save_user_to_file (Dict u) filename Succeeds s)) =
     (files s)(filename \<mapsto>
        contents s filename @ spec_email u @ ''----'' @ spec_password u @ [CHR 0x0A])"
    by (simp add: save_user_to_file_files save_body_files)
next
  fix user_info d
  have "contents (snd (save_user_to_file user_info filename d s)) filename =
        contents (snd (save_body user_info filename d s)) filename"
    by (rule contents_cong) (rule save_user_to_file_files)
  then show "\<exists>suffix. contents (snd (save_user_to_file user_info filename d s)) filename =
        contents s filename @ suffix"
    using save_body_appends [of user_info filename d s] by simp
next
  fix user_info d g
  assume "g \<noteq> filename"
  then show "files (snd (save_user_to_file user_info filename d s)) g = files s g"
    by (simp add: save_user_to_file_files save_body_other_files)
qed

text \<open>The theorem at a record with a user name and a password, and at another file.\<close>

theorem save_user_to_file_appends_line_witness:
  "files (snd (save_user_to_file
                 (Dict [(''Username'', PStr ''a@gmail.com''), (''One-time_password'', PStr ''Abc12345!'')])
                 output_file Succeeds empty_state)) output_file =
     Some (''a@gmail.com----Abc12345!'' @ [CHR 0x0A]) \<and>
   ''other.txt'' \<noteq> output_file \<and>
   files (snd (save_user_to_file (Dict []) output_file (WriteFails 3) empty_state)) ''other.txt'' =
     files empty_state ''other.txt''"
proof -
  have n: "''other.txt'' \<noteq> output_file" by (simp add: output_file_def)
  from save_user_to_file_appends_line
         [of "[(''Username'', PStr ''a@gmail.com''), (''One-time_password'', PStr ''Abc12345!'')]"
             output_file empty_state] n
  show ?thesis
    by (simp add: spec_email_def spec_password_def dict_get_def contents_def empty_state_def)
qed

subsection \<open>The registration loop\<close>

lemma register_step_failed:
  assumes "pages w i = StepRaises \<or> pages w i = NoAddUserButton"
    and "identity w i = (e, g, f)"
  shows "register_step w i created_users s =
           (created_users, log ''[FAIL]'' ''ERR'' (say (Create e g f) s))"
  using assms by (auto simp: register_step_def succeeded_def create_user_via_browser_def Let_def)

lemma register_step_submitted:
  assumes "pages w i = Submitted sc" and "identity w i = (e, g, f)"
  shows "register_step w i created_users s =
           (created_users @
              [[(''success'', PBool True), (''Username'', PStr e), (''Name'', PStr (g @ '' '' @ f)),
                (''First_name'', PStr g), (''Last_name'', PStr f),
                (''One-time_password'', PStr (opt_or_empty (scrape_otp sc)))]],
            snd (save_user_to_file
                   (Dict [(''Username'', PStr e), (''Name'', PStr (g @ '' '' @ f)),
                          (''First_name'', PStr g), (''Last_name'', PStr f),
                          (''One-time_password'', PStr (opt_or_empty (scrape_otp sc)))])
                   output_file (disk w i)
                   (log ''[OK]'' ''INFO'' (say (Create e g f) s))))"
  using assms
  by (simp add: register_step_def succeeded_def create_user_via_browser_def Let_def dict_get_def)



lemma register_step_length:
  "length (fst (register_step w i created_users s)) \<le> Suc (length created_users)"
proof -
  obtain e g f where id: "identity w i = (e, g, f)" by (cases "identity w i") auto
  show ?thesis
    by (cases "pages w i")
       (simp_all add: register_step_failed [OF _ id] register_step_submitted [OF _ id])
qed

lemma register_loop_length:
  "length (fst (register_loop w js created_users s)) \<le> length created_users + length js"
proof (induction js arbitrary: created_users s)
  case Nil
  then show ?case by simp
next
  case (Cons j js)
  obtain c1 s1 where a: "register_step w j created_users s = (c1, s1)"
    by (cases "register_step w j created_users s")
  with register_step_length [of w j created_users s] have "length c1 \<le> Suc (length created_users)"
    by simp
  moreover from Cons.IH [of c1 s1] have "length (fst (register_loop w js c1 s1)) \<le> length c1 + length js" .
  ultimately show ?case using a by simp
qed





lemma register_users_fst:
  "fst (register_users n u p h w s) =
     (if deps_importable w \<and> chrome_starts w \<and> (\<exists>b. login_page w = Landed b)
      then fst (register_loop w [0..<nat n] []
                  (snd (login_aws_console u p (login_page w) (say Launch s))))
      else [])"
  by (cases "login_page w")
     (simp_all add: register_users_def login_aws_console_def Let_def split: prod.splits)



text \<open>
  Claim C9. For a count \<open>n\<close> that is not negative, \<open>register_users\<close> returns at
  most \<open>n\<close> records: one pass through the loop body adds at most one record, and a
  pass whose call of \<open>create_user_via_browser\<close> returns \<open>False\<close> adds none.
\<close>

theorem register_users_at_most_count:
  assumes "0 \<le> n"
  shows "int (length (fst (register_users n u p h w s))) \<le> n \<and>
         length (fst (register_step w i created_users s')) \<le> Suc (length created_users) \<and>
         (fst (create_user_via_browser (fst (identity w i)) (fst (snd (identity w i)))
                 (snd (snd (identity w i))) (pages w i) s') = Val (PBool False) \<longrightarrow>
          fst (register_step w i created_users s') = created_users)"
proof (intro conjI impI)
  have "length (fst (register_loop w [0..<nat n] [] t)) \<le> nat n" for t
    using register_loop_length [of w "[0..<nat n]" "[]" t] by simp
  then have "length (fst (register_users n u p h w s)) \<le> nat n"
    by (simp add: register_users_fst)
  with assms show "int (length (fst (register_users n u p h w s))) \<le> n" by linarith
  show "length (fst (register_step w i created_users s')) \<le> Suc (length created_users)"
    by (rule register_step_length)
  obtain e g f where id: "identity w i = (e, g, f)" by (cases "identity w i") auto
  show "fst (register_step w i created_users s') = created_users"
    if "fst (create_user_via_browser (fst (identity w i)) (fst (snd (identity w i)))
                 (snd (snd (identity w i))) (pages w i) s') = Val (PBool False)"
    using that
    by (cases "pages w i")
       (simp_all add: id register_step_failed [OF _ id] create_user_via_browser_def Let_def)
qed

text \<open>
  The theorem at a count of two, in a world whose first pass succeeds and whose
  second pass fails.
\<close>

theorem register_users_at_most_count_witness:
  "(0::int) \<le> 2 \<and>
   int (length (fst (register_users 2 ''admin'' ''pw'' False
          (sample_world\<lparr>pages := \<lambda>i. if i = 0 then Submitted sample_scrape else StepRaises\<rparr>)
          empty_state))) \<le> 2 \<and>
   fst (register_step
          (sample_world\<lparr>pages := \<lambda>i. if i = 0 then Submitted sample_scrape else StepRaises\<rparr>)
          1 [] empty_state) = []"
proof -
  let ?w = "sample_world\<lparr>pages := \<lambda>i. if i = 0 then Submitted sample_scrape else StepRaises\<rparr>"
  have h: "(0::int) \<le> 2" by simp
  have f: "fst (create_user_via_browser (fst (identity ?w 1)) (fst (snd (identity ?w 1)))
                 (snd (snd (identity ?w 1))) (pages ?w 1) empty_state) = Val (PBool False)"
    by (simp add: create_user_via_browser_def)
  from register_users_at_most_count [OF h, where w = ?w and i = 1 and s' = empty_state
      and created_users = "[]" and u = "''admin''" and p = "''pw''" and h = False and s = empty_state] f h
  show ?thesis by simp
qed

text \<open>
  Claim C3. When the wizard is completed and no one-time password has been found,
  the iteration still appends a record, with the empty string as its password,
  to the created users; and when the write goes through, the output file grows by
  the line made of the e-mail address, four dashes and nothing else.
\<close>

theorem missing_otp_is_success:
  assumes "pages w i = Submitted sc" and "scrape_otp sc = None"
  shows "fst (register_step w i created_users s) =
           created_users @
             [[(''success'', PBool True), (''Username'', PStr (fst (identity w i))),
               (''Name'', PStr (fst (snd (identity w i)) @ '' '' @ snd (snd (identity w i)))),
               (''First_name'', PStr (fst (snd (identity w i)))),
               (''Last_name'', PStr (snd (snd (identity w i)))),
               (''One-time_password'', PStr [])]] \<and>
         (disk w i = Succeeds \<longrightarrow>
            files (snd (register_step w i created_users s)) output_file =
              Some (contents s output_file @ fst (identity w i) @ ''----'' @ [CHR 0x0A]))"
proof -
  obtain e g f where id: "identity w i = (e, g, f)" by (cases "identity w i") auto
  have otp: "opt_or_empty (scrape_otp sc) = []"
    using assms(2) by (simp add: opt_or_empty_def is_set_def)
  show ?thesis
    by (simp add: register_step_submitted [OF assms(1) id] otp id save_user_to_file_files
        save_body_files spec_email_def spec_password_def dict_get_def contents_def log_def say_def)
qed

text \<open>The theorem at the first iteration of a world in which no extractor finds anything.\<close>

theorem missing_otp_is_success_witness:
  "pages (sample_world\<lparr>pages := \<lambda>i. Submitted empty_scrape\<rparr>) 0 = Submitted empty_scrape \<and>
   scrape_otp empty_scrape = None \<and>
   disk (sample_world\<lparr>pages := \<lambda>i. Submitted empty_scrape\<rparr>) 0 = Succeeds \<and>
   fst (register_step (sample_world\<lparr>pages := \<lambda>i. Submitted empty_scrape\<rparr>) 0 [] empty_state) =
     [[(''success'', PBool True), (''Username'', PStr ''abcdefghij@gmail.com''),
       (''Name'', PStr ''John Williams''), (''First_name'', PStr ''John''),
       (''Last_name'', PStr ''Williams''), (''One-time_password'', PStr [])]] \<and>
   files (snd (register_step (sample_world\<lparr>pages := \<lambda>i. Submitted empty_scrape\<rparr>) 0 []
                 empty_state)) output_file =
     Some (''abcdefghij@gmail.com----'' @ [CHR 0x0A])"
proof -
  let ?w = "sample_world\<lparr>pages := \<lambda>i. Submitted empty_scrape\<rparr>"
  have a: "pages ?w 0 = Submitted empty_scrape" by simp
  have b: "scrape_otp empty_scrape = None"
    by (simp add: scrape_otp_def empty_scrape_def is_set_def)
  have c: "disk ?w 0 = Succeeds" by (simp add: sample_world_def)
  have d: "contents empty_state output_file = []" by (simp add: contents_def empty_state_def)
  from missing_otp_is_success [OF a b, of "[]" empty_state] a b c d
  show ?thesis by (simp add: identity_pages identity_sample)
qed

subsection \<open>Start-up and login\<close>

lemma register_users_no_deps:
  "\<not> deps_importable w \<Longrightarrow>
   register_users n u p h w s = ([], log ''[INFO]'' ''ERR'' (log ''[FAIL]'' ''ERR'' s))"
  by (simp add: register_users_def)





lemma counts_say [simp]:
  "creations (say e s) = creations s + (case e of Create a b c \<Rightarrow> 1 | _ \<Rightarrow> 0)"
  "logins (say e s) = logins s + (case e of Login a b \<Rightarrow> 1 | _ \<Rightarrow> 0)"
  by (cases e; simp add: creations_def logins_def say_def)+

lemma counts_log [simp]:
  "creations (log m l s) = creations s" "logins (log m l s) = logins s"
  by (simp_all add: log_def)

lemma counts_finally [simp]:
  "creations (finally_quit w s) = creations s" "logins (finally_quit w s) = logins s"
  by (simp_all add: finally_quit_def)

lemma files_say [simp]: "files (say e s) = files s"
  by (simp add: say_def)

lemma files_log [simp]: "files (log m l s) = files s"
  by (simp add: log_def)

lemma files_finally [simp]: "files (finally_quit w s) = files s"
  by (simp add: finally_quit_def)





subsection \<open>Exit status\<close>

lemma main_parsed:
  assumes "parse_args main_parser argv = Some (Inr ns)"
  obtains n u p h where "main argv w s = Some (main_run n u p h w s)"
proof -
  from parse_args_values [OF assms] obtain u p n h where
    "ns ''username'' = Some (NStr u)" "ns ''password'' = Some (NStr p)"
    "ns ''count'' = Some (NInt n)" "ns ''headless'' = Some (NBool h)"
    by blast
  with assms have "main argv w s = Some (main_run n u p h w s)"
    by (simp add: main_def)
  then show ?thesis by (rule that)
qed

text \<open>
  Claim C10. When the browser-automation packages cannot be imported,
  \<open>register_users\<close> returns the empty list, and all it does is to log two error
  lines: no browser is launched and no file is written. The process then exits
  with status 1, for every argument vector that parses.
\<close>

theorem import_error_exits_one:
  assumes "\<not> deps_importable w"
  shows "register_users n u p h w s =
           ([], s\<lparr>trace := trace s @ [Log ''ERR'' ''[FAIL]'', Log ''ERR'' ''[INFO]'']\<rparr>) \<and>
         (\<forall>argv ns. parse_args main_parser argv = Some (Inr ns) \<longrightarrow>
            process_exit argv w s = Some 1)"
proof (intro conjI allI impI)
  show r: "register_users n u p h w s =
           ([], s\<lparr>trace := trace s @ [Log ''ERR'' ''[FAIL]'', Log ''ERR'' ''[INFO]'']\<rparr>)" for n u p h
    using assms by (simp add: register_users_no_deps log_def say_def)
  fix argv ns
  assume "parse_args main_parser argv = Some (Inr ns)"
  then obtain n' u' p' h' where "main argv w s = Some (main_run n' u' p' h' w s)"
    by (rule main_parsed)
  then show "process_exit argv w s = Some 1"
    by (simp add: process_exit_def main_run_def r exit_status_def)
qed

text \<open>The theorem at the arguments \<open>-u admin -p pw\<close> in a world without the packages.\<close>

theorem import_error_exits_one_witness:
  "\<not> deps_importable (sample_world\<lparr>deps_importable := False\<rparr>) \<and>
   register_users 3 ''admin'' ''pw'' False (sample_world\<lparr>deps_importable := False\<rparr>) empty_state =
     ([], empty_state\<lparr>trace := [Log ''ERR'' ''[FAIL]'', Log ''ERR'' ''[INFO]'']\<rparr>) \<and>
   parse_args main_parser [''-u'', ''admin'', ''-p'', ''pw''] =
     Some (Inr ((defaults main_parser)(''username'' \<mapsto> NStr ''admin'', ''password'' \<mapsto> NStr ''pw''))) \<and>
   process_exit [''-u'', ''admin'', ''-p'', ''pw''] (sample_world\<lparr>deps_importable := False\<rparr>)
     empty_state = Some 1"
proof -
  let ?w = "sample_world\<lparr>deps_importable := False\<rparr>"
  have a: "\<not> deps_importable ?w" by simp
  have t: "trace empty_state = []" by (simp add: empty_state_def)
  from import_error_exits_one [OF a, of 3 "''admin''" "''pw''" False empty_state] parse_sample a t
  show ?thesis by simp
qed

lemma register_step_no_email:
  assumes "\<forall>d \<in> set created_users. map_of d ''email'' = None"
  shows "\<forall>d \<in> set (fst (register_step w i created_users s)). map_of d ''email'' = None"
proof -
  obtain e g f where id: "identity w i = (e, g, f)" by (cases "identity w i") auto
  show ?thesis
    using assms
    by (cases "pages w i")
       (simp_all add: register_step_failed [OF _ id] register_step_submitted [OF _ id])
qed

lemma register_loop_no_email:
  assumes "\<forall>d \<in> set created_users. map_of d ''email'' = None"
  shows "\<forall>d \<in> set (fst (register_loop w js created_users s)). map_of d ''email'' = None"
  using assms
proof (induction js arbitrary: created_users s)
  case Nil
  then show ?case by simp
next
  case (Cons j js)
  obtain c1 s1 where a: "register_step w j created_users s = (c1, s1)"
    by (cases "register_step w j created_users s")
  with register_step_no_email [OF Cons.prems, of w j s]
  have "\<forall>d \<in> set c1. map_of d ''email'' = None" by simp
  from Cons.IH [OF this, of s1] a show ?case by simp
qed

lemma register_users_no_email:
  "\<forall>d \<in> set (fst (register_users n u p h w s)). map_of d ''email'' = None"
  using register_loop_no_email [of "[]" w "[0..<nat n]"]
  by (auto simp: register_users_fst)

lemma print_users_raises:
  "users \<noteq> [] \<Longrightarrow> map_of (hd users) ''email'' = None \<Longrightarrow>
   print_users users s = (Some (KeyError ''email''), s)"
  by (cases users) (simp_all add: dict_index_def)

lemma main_run_key_error:
  assumes "fst (register_users n u p h w s) \<noteq> []"
  shows "fst (main_run n u p h w s) = Inl (KeyError ''email'')"
proof -
  obtain cs s1 where r: "register_users n u p h w s = (cs, s1)"
    by (cases "register_users n u p h w s")
  with assms have ne: "cs \<noteq> []" by simp
  from register_users_no_email [of n u p h w s] r ne have "map_of (hd cs) ''email'' = None"
    by simp
  with ne have "print_users cs s1 = (Some (KeyError ''email''), s1)"
    by (rule print_users_raises)
  with r ne show ?thesis by (simp add: main_run_def)
qed

lemma main_run_never_zero: "exit_status (fst (main_run n u p h w s)) = 1"
proof (cases "fst (register_users n u p h w s) = []")
  case True
  then show ?thesis by (auto simp: main_run_def exit_status_def split: prod.splits)
next
  case False
  then show ?thesis by (simp add: main_run_key_error exit_status_def)
qed

text \<open>
  Claim C1 does not hold of the code. In the run \<open>-u admin -p pw\<close> of a world in which
  everything succeeds, \<open>register_users\<close> returns one record, the summary loop of
  \<open>main\<close> raises \<open>KeyError\<close> on its first look-up, \<open>email\<close>, and the process exits
  with status 1 where the claim says 0. The lemma before it shows that this is so
  in every run that creates a user.
\<close>

theorem exit_status_with_created_user:
  "length (fst (register_users 1 ''admin'' ''pw'' False sample_world empty_state)) = 1 \<and>
   map_option fst (main [''-u'', ''admin'', ''-p'', ''pw''] sample_world empty_state) =
     Some (Inl (KeyError ''email'')) \<and>
   process_exit [''-u'', ''admin'', ''-p'', ''pw''] sample_world empty_state = Some 1"
  by code_simp

end
